theory Spec2Isabelle
  imports Main "HOL-Library.Sublist"
begin

section \<open>Text, as Python's \<open>str\<close>\<close>

text \<open>
  The script \<^verbatim>\<open>scripts/add-dynamic-export.py\<close> reads each route file as text
  (\<^verbatim>\<open>open(file_path, 'r', encoding='utf-8')\<close>), so what it tests, matches and slices is a
  sequence of Unicode code points. A code point is a natural number here; \<open>str\<close> turns an
  ASCII literal of the source into that sequence.
\<close>

type_synonym pystr = "nat list"

definition str :: "string \<Rightarrow> pystr" where
  "str s = map of_char s"

text \<open>Python's \<^verbatim>\<open>needle in hay\<close> on strings: some suffix of \<open>hay\<close> starts with \<open>needle\<close>.\<close>

fun py_in :: "pystr \<Rightarrow> pystr \<Rightarrow> bool" where
  "py_in needle [] = (needle = [])"
| "py_in needle (c # cs) = (prefix needle (c # cs) \<or> py_in needle cs)"

text \<open>
  Python's slices \<^verbatim>\<open>s[:e]\<close> and \<^verbatim>\<open>s[e:]\<close> for an integer \<open>e\<close>: a negative bound counts
  from the end, and every bound is clipped to the string.
\<close>

definition slice_to :: "pystr \<Rightarrow> int \<Rightarrow> pystr" where
  "slice_to s e = take (nat (if e < 0 then int (length s) + e else e)) s"

definition slice_from :: "pystr \<Rightarrow> int \<Rightarrow> pystr" where
  "slice_from s e = drop (nat (if e < 0 then int (length s) + e else e)) s"

section \<open>The regular expression and \<^verbatim>\<open>re.search\<close>\<close>

text \<open>
  The pattern of the source is
  \<^verbatim>\<open>(import\s+.*?\n)(\n*)(export\s+(async\s+)?function|export\s+const)\<close>, compiled with
  \<^verbatim>\<open>re.DOTALL\<close>. Its atoms are single characters: a literal, \<^verbatim>\<open>\s\<close> (Unicode white space,
  since the pattern is a \<^verbatim>\<open>str\<close>) and \<^verbatim>\<open>.\<close> (any character, newline included, under
  \<^verbatim>\<open>DOTALL\<close>).
\<close>

datatype cclass = Lit nat | Space | Dot

fun accepts :: "cclass \<Rightarrow> nat \<Rightarrow> bool" where
  "accepts (Lit c) x = (x = c)"
| "accepts Space x =
     ((9 \<le> x \<and> x \<le> 13) \<or> (28 \<le> x \<and> x \<le> 32) \<or> x = 133 \<or> x = 160 \<or> x = 5760 \<or>
      (8192 \<le> x \<and> x \<le> 8202) \<or> x = 8232 \<or> x = 8233 \<or> x = 8239 \<or> x = 8287 \<or> x = 12288)"
| "accepts Dot x = True"

text \<open>
  The operators the pattern uses: greedy \<^verbatim>\<open>+\<close>, \<^verbatim>\<open>*\<close> and \<^verbatim>\<open>?\<close>, the lazy \<^verbatim>\<open>*?\<close>,
  sequence, alternation and numbered groups.
\<close>

datatype re = Eps | Atom cclass | Plus cclass | Star cclass | LazyStar cclass
  | Opt re | Seq re re | Alt re re | Group nat re

text \<open>
  A backtracking matcher in the order Python's engine tries things: \<open>bt k s i g\<close> runs the
  pending work \<open>k\<close> on the rest \<open>s\<close> of the input, which starts at index \<open>i\<close>, with the
  group ends \<open>g\<close> seen so far, and returns the first success: the index where the match
  ends and the group ends. A greedy operator tries one more character before it tries the
  continuation, a lazy one the continuation first, an alternation its left branch first.
\<close>

datatype frame = Match re | Close nat

fun weight :: "re \<Rightarrow> nat" where
  "weight (Opt r) = Suc (weight r)"
| "weight (Seq a b) = Suc (Suc (weight a + weight b))"
| "weight (Alt a b) = Suc (weight a + weight b)"
| "weight (Group n r) = Suc (Suc (weight r))"
| "weight _ = 0"

fun fweight :: "frame \<Rightarrow> nat" where
  "fweight (Match r) = Suc (weight r)"
| "fweight (Close n) = 1"

function bt :: "frame list \<Rightarrow> pystr \<Rightarrow> nat \<Rightarrow> (nat \<rightharpoonup> nat) \<Rightarrow> (nat \<times> (nat \<rightharpoonup> nat)) option" where
  "bt [] s i g = Some (i, g)"
| "bt (Close n # k) s i g = bt k s i (g(n \<mapsto> i))"
| "bt (Match Eps # k) s i g = bt k s i g"
| "bt (Match (Atom c) # k) [] i g = None"
| "bt (Match (Atom c) # k) (x # xs) i g =
     (if accepts c x then bt k xs (Suc i) g else None)"
| "bt (Match (Plus c) # k) [] i g = None"
| "bt (Match (Plus c) # k) (x # xs) i g =
     (if accepts c x then bt (Match (Star c) # k) xs (Suc i) g else None)"
| "bt (Match (Star c) # k) [] i g = bt k [] i g"
| "bt (Match (Star c) # k) (x # xs) i g =
     (if accepts c x
      then (case bt (Match (Star c) # k) xs (Suc i) g of
              Some m \<Rightarrow> Some m
            | None \<Rightarrow> bt k (x # xs) i g)
      else bt k (x # xs) i g)"
| "bt (Match (LazyStar c) # k) [] i g = bt k [] i g"
| "bt (Match (LazyStar c) # k) (x # xs) i g =
     (case bt k (x # xs) i g of
        Some m \<Rightarrow> Some m
      | None \<Rightarrow> (if accepts c x then bt (Match (LazyStar c) # k) xs (Suc i) g else None))"
| "bt (Match (Opt r) # k) s i g =
     (case bt (Match r # k) s i g of Some m \<Rightarrow> Some m | None \<Rightarrow> bt k s i g)"
| "bt (Match (Seq a b) # k) s i g = bt (Match a # Match b # k) s i g"
| "bt (Match (Alt a b) # k) s i g =
     (case bt (Match a # k) s i g of Some m \<Rightarrow> Some m | None \<Rightarrow> bt (Match b # k) s i g)"
| "bt (Match (Group n r) # k) s i g = bt (Match r # Close n # k) s i g"
  by pat_completeness auto
termination
  by (relation "measures [\<lambda>(k, s, i, g). length s, \<lambda>(k, s, i, g). sum_list (map fweight k)]") auto

text \<open>A literal word of the pattern is the sequence of its characters.\<close>

fun word :: "pystr \<Rightarrow> re" where
  "word [] = Eps"
| "word (c # cs) = Seq (Atom (Lit c)) (word cs)"

text \<open>Group 3, \<^verbatim>\<open>(export\s+(async\s+)?function|export\s+const)\<close>.\<close>

definition export_decl :: re where
  "export_decl =
     Alt (Seq (word (str ''export'')) (Seq (Plus Space)
            (Seq (Opt (Group 4 (Seq (word (str ''async'')) (Plus Space))))
                 (word (str ''function'')))))
         (Seq (word (str ''export'')) (Seq (Plus Space) (word (str ''const''))))"

definition import_pattern :: re where
  "import_pattern =
     Seq (Group 1 (Seq (word (str ''import''))
                  (Seq (Plus Space) (Seq (LazyStar Dot) (Atom (Lit 10))))))
    (Seq (Group 2 (Star (Lit 10)))
         (Group 3 export_decl))"

text \<open>
  \<^verbatim>\<open>re.search\<close> tries every start index from the left, the end of the string included,
  and returns the first match. \<open>m_end_group\<close> is \<^verbatim>\<open>match.end(n)\<close>, which is \<open>-1\<close> for a
  group that took no part in the match.
\<close>

record match =
  m_start :: nat
  m_end :: nat
  m_groups :: "nat \<rightharpoonup> nat"

fun scan :: "re \<Rightarrow> pystr \<Rightarrow> nat \<Rightarrow> match option" where
  "scan r [] i =
     (case bt [Match r] [] i Map.empty of
        Some (j, g) \<Rightarrow> Some \<lparr>m_start = i, m_end = j, m_groups = g\<rparr>
      | None \<Rightarrow> None)"
| "scan r (x # xs) i =
     (case bt [Match r] (x # xs) i Map.empty of
        Some (j, g) \<Rightarrow> Some \<lparr>m_start = i, m_end = j, m_groups = g\<rparr>
      | None \<Rightarrow> scan r xs (Suc i))"

definition re_search :: "re \<Rightarrow> pystr \<Rightarrow> match option" where
  "re_search r s = scan r s 0"

definition m_end_group :: "match \<Rightarrow> nat \<Rightarrow> int" where
  "m_end_group m n = (case m_groups m n of Some e \<Rightarrow> int e | None \<Rightarrow> - 1)"

section \<open>Files, standard output and exceptions\<close>

text \<open>
  The two handlers of the source tell \<^verbatim>\<open>FileNotFoundError\<close> from every other
  \<^verbatim>\<open>Exception\<close>, whose text is printed. Nothing outside \<^verbatim>\<open>Exception\<close> (an interrupt)
  is modelled.
\<close>

datatype exn = FileNotFoundError | OtherException string

text \<open>
  A file holds the text that reading it returns (decoded, newlines as Python's text mode
  gives them) and that writing it stores. Opening it for reading can raise (no permission,
  a directory, bytes that are not UTF-8). Writing is \<^verbatim>\<open>open(file_path, 'w')\<close> followed by
  \<^verbatim>\<open>f.write\<close>: the open can raise, which leaves the file as it was; it truncates the file
  when it succeeds, so a write that raises afterwards (a full disk, a size limit) leaves
  only the part of the new text that was stored, \<open>WriteFails n\<close> its first \<open>n\<close> characters.
\<close>

datatype write_fault = OpenFails exn | WriteFails nat exn

record pyfile =
  body :: pystr
  read_error :: "exn option"
  write_error :: "write_fault option"

text \<open>One constructor per \<^verbatim>\<open>print\<close> of the source.\<close>

datatype line =
    Banner
  | AlreadyHas string
  | NotUsing string
  | Added string
  | NoInsertionPoint string
  | NotFound string
  | ErrorLine string string
  | Done nat

fun line_path :: "line \<Rightarrow> string option" where
  "line_path (AlreadyHas p) = Some p"
| "line_path (NotUsing p) = Some p"
| "line_path (Added p) = Some p"
| "line_path (NoInsertionPoint p) = Some p"
| "line_path (NotFound p) = Some p"
| "line_path (ErrorLine p e) = Some p"
| "line_path Banner = None"
| "line_path (Done n) = None"

text \<open>
  The world the script runs in: the files by path, the lines printed so far, the paths it
  has opened for writing so far (attempts that raised included), and what standard output
  does with a line: \<^verbatim>\<open>print\<close> raises when the stream is closed or cannot encode the
  line (the status lines carry symbols outside ASCII), and \<open>print_error\<close> gives the text of
  that exception.
\<close>

record world =
  files :: "string \<rightharpoonup> pyfile"
  stdout :: "line list"
  opened_w :: "string list"
  print_error :: "line \<Rightarrow> string option"

definition py_print :: "line \<Rightarrow> world \<Rightarrow> (exn \<times> world) + world" where
  "py_print l w =
     (case print_error w l of
        Some e \<Rightarrow> Inl (OtherException e, w)
      | None \<Rightarrow> Inr (w\<lparr>stdout := stdout w @ [l]\<rparr>))"

definition py_read :: "string \<Rightarrow> world \<Rightarrow> exn + pystr" where
  "py_read p w =
     (case files w p of
        None \<Rightarrow> Inl FileNotFoundError
      | Some f \<Rightarrow> (case read_error f of Some e \<Rightarrow> Inl e | None \<Rightarrow> Inr (body f)))"

definition py_write :: "string \<Rightarrow> pystr \<Rightarrow> world \<Rightarrow> (exn \<times> world) + world" where
  "py_write p s w =
     (let w1 = w\<lparr>opened_w := opened_w w @ [p]\<rparr> in
      case files w p of
        None \<Rightarrow> Inr (w1\<lparr>files := (files w)(p \<mapsto> \<lparr>body = s, read_error = None, write_error = None\<rparr>)\<rparr>)
      | Some f \<Rightarrow>
          (case write_error f of
             None \<Rightarrow> Inr (w1\<lparr>files := (files w)(p \<mapsto> f\<lparr>body := s\<rparr>)\<rparr>)
           | Some (OpenFails e) \<Rightarrow> Inl (e, w1)
           | Some (WriteFails n e) \<Rightarrow>
               Inl (e, w1\<lparr>files := (files w)(p \<mapsto> f\<lparr>body := take n s\<rparr>)\<rparr>)))"

section \<open>The script\<close>

definition API_ROUTES :: "string list" where
  "API_ROUTES =
     [''app/api/credits/usage/route.ts'',
      ''app/api/credits/transactions/route.ts'',
      ''app/api/settings/route.ts'',
      ''app/api/purchases/route.ts'',
      ''app/api/projects/route.ts'',
      ''app/api/projects/[id]/route.ts'',
      ''app/api/personas/route.ts'',
      ''app/api/personas/[id]/route.ts'',
      ''app/api/personas/test-style/route.ts'',
      ''app/api/personas/enrich-style/route.ts'',
      ''app/api/contents/[id]/route.ts'',
      ''app/api/stripe/create-session/route.ts'',
      ''app/api/stripe/confirm/route.ts'',
      ''app/api/stripe/manual-complete/route.ts'',
      ''app/api/generate-advanced/route.ts'']"

definition DYNAMIC_EXPORT :: pystr where
  "DYNAMIC_EXPORT =
     [10] @ str ''// Force dynamic rendering (required for NextAuth session)'' @ [10] @
     str ''export const dynamic = '' @ [39] @ str ''force-dynamic'' @ [39] @ [10]"

text \<open>
  A \<^verbatim>\<open>print\<close> followed by a \<^verbatim>\<open>return\<close>, as the source has it at each of its exits: the
  value is returned when the line is printed, and the exception of the \<^verbatim>\<open>print\<close> is
  raised otherwise.
\<close>

definition print_return :: "line \<Rightarrow> bool \<Rightarrow> world \<Rightarrow> (exn \<times> world) + (bool \<times> world)" where
  "print_return l b w =
     (case py_print l w of
        Inl ew \<Rightarrow> Inl ew
      | Inr w' \<Rightarrow> Inr (b, w'))"

text \<open>
  The body of the \<^verbatim>\<open>try\<close> block: it returns the boolean and the new world, or raises
  (\<open>Inl\<close>) with the world as it is at that moment.
\<close>

definition add_dynamic_export_try :: "string \<Rightarrow> world \<Rightarrow> (exn \<times> world) + (bool \<times> world)" where
  "add_dynamic_export_try file_path w =
     (case py_read file_path w of
        Inl e \<Rightarrow> Inl (e, w)
      | Inr content \<Rightarrow>
          if py_in (str ''export const dynamic'') content
          then print_return (AlreadyHas file_path) False w
          else if \<not> py_in (str ''getServerSession'') content
          then print_return (NotUsing file_path) False w
          else
            (case re_search import_pattern content of
               Some m \<Rightarrow>
                 (let new_content =
                        slice_to content (m_end_group m 1) @ DYNAMIC_EXPORT @
                        slice_from content (m_end_group m 1)
                  in case py_write file_path new_content w of
                       Inl ew \<Rightarrow> Inl ew
                     | Inr w' \<Rightarrow> print_return (Added file_path) True w')
             | None \<Rightarrow> print_return (NoInsertionPoint file_path) False w))"

text \<open>
  The function with its two \<^verbatim>\<open>except\<close> clauses. Each handler prints a line and returns
  false; when that \<^verbatim>\<open>print\<close> raises, no clause catches it and the exception leaves the
  function (\<open>Inl\<close>).
\<close>

definition add_dynamic_export :: "string \<Rightarrow> world \<Rightarrow> (exn \<times> world) + (bool \<times> world)" where
  "add_dynamic_export file_path w =
     (case add_dynamic_export_try file_path w of
        Inr r \<Rightarrow> Inr r
      | Inl (FileNotFoundError, w') \<Rightarrow> print_return (NotFound file_path) False w'
      | Inl (OtherException e, w') \<Rightarrow> print_return (ErrorLine file_path e) False w')"

text \<open>
  The loop of \<^verbatim>\<open>main\<close> over the routes, with \<^verbatim>\<open>updated_count\<close> as accumulator. The loop
  has no \<^verbatim>\<open>try\<close>: an exception that leaves \<open>add_dynamic_export\<close> ends the run.
\<close>

fun for_routes :: "string list \<Rightarrow> nat \<Rightarrow> world \<Rightarrow> (exn \<times> world) + (nat \<times> world)" where
  "for_routes [] updated_count w = Inr (updated_count, w)"
| "for_routes (route # routes) updated_count w =
     (case add_dynamic_export route w of
        Inl ew \<Rightarrow> Inl ew
      | Inr (True, w') \<Rightarrow> for_routes routes (updated_count + 1) w'
      | Inr (False, w') \<Rightarrow> for_routes routes updated_count w')"

definition main :: "world \<Rightarrow> (exn \<times> world) + world" where
  "main w =
     (case py_print Banner w of
        Inl ew \<Rightarrow> Inl ew
      | Inr w1 \<Rightarrow>
          (case for_routes API_ROUTES 0 w1 of
             Inl ew \<Rightarrow> Inl ew
           | Inr (updated_count, w2) \<Rightarrow> py_print (Done updated_count) w2))"

text \<open>
  The world at the end of a call, whether it returned or raised, and whether a call
  returned true.
\<close>

definition world_of :: "(exn \<times> world) + ('a \<times> world) \<Rightarrow> world" where
  "world_of r = (case r of Inl (e, w) \<Rightarrow> w | Inr (x, w) \<Rightarrow> w)"

definition final_world :: "(exn \<times> world) + world \<Rightarrow> world" where
  "final_world r = (case r of Inl (e, w) \<Rightarrow> w | Inr w \<Rightarrow> w)"

definition returned_true :: "(exn \<times> world) + (bool \<times> world) \<Rightarrow> bool" where
  "returned_true r = (case r of Inl ew \<Rightarrow> False | Inr (b, w) \<Rightarrow> b)"

section \<open>Vocabulary of the properties\<close>

text \<open>
  The insertion preconditions, on the file a path names: it can be read and written, its
  text lacks \<^verbatim>\<open>export const dynamic\<close>, contains \<^verbatim>\<open>getServerSession\<close>, and the pattern
  is found in it.
\<close>

definition insertable :: "world \<Rightarrow> string \<Rightarrow> bool" where
  "insertable w p =
     (case files w p of
        None \<Rightarrow> False
      | Some f \<Rightarrow>
          read_error f = None \<and> write_error f = None \<and>
          \<not> py_in (str ''export const dynamic'') (body f) \<and>
          py_in (str ''getServerSession'') (body f) \<and>
          re_search import_pattern (body f) \<noteq> None)"

text \<open>
  A route that gets as far as the write and whose write then fails part-way: the open
  succeeds and truncates the file, the write raises.
\<close>

definition write_cuts :: "world \<Rightarrow> string \<Rightarrow> bool" where
  "write_cuts w p =
     (case files w p of
        None \<Rightarrow> False
      | Some f \<Rightarrow>
          read_error f = None \<and>
          \<not> py_in (str ''export const dynamic'') (body f) \<and>
          py_in (str ''getServerSession'') (body f) \<and>
          re_search import_pattern (body f) \<noteq> None \<and>
          (case write_error f of Some (WriteFails n e) \<Rightarrow> True | _ \<Rightarrow> False))"

text \<open>The text written back for a match \<open>m\<close> in the text \<open>c\<close>.\<close>

definition new_content :: "pystr \<Rightarrow> match \<Rightarrow> pystr" where
  "new_content c m =
     slice_to c (m_end_group m 1) @ DYNAMIC_EXPORT @ slice_from c (m_end_group m 1)"

text \<open>
  What one call does to the file of its route, whatever is printed: nothing unless the
  call gets as far as the write, and then what the write leaves.
\<close>

definition file_after :: "pyfile \<Rightarrow> pyfile" where
  "file_after f =
     (if read_error f \<noteq> None \<or> py_in (str ''export const dynamic'') (body f) \<or>
         \<not> py_in (str ''getServerSession'') (body f)
      then f
      else (case re_search import_pattern (body f) of
              None \<Rightarrow> f
            | Some m \<Rightarrow>
                (case write_error f of
                   None \<Rightarrow> f\<lparr>body := new_content (body f) m\<rparr>
                 | Some (OpenFails e) \<Rightarrow> f
                 | Some (WriteFails n e) \<Rightarrow> f\<lparr>body := take n (new_content (body f) m)\<rparr>)))"

text \<open>
  The number of places where \<open>needle\<close> occurs in a text, and whether a pattern (or a pending
  frame) can set the end of group \<open>n\<close>.
\<close>

fun count_in :: "pystr \<Rightarrow> pystr \<Rightarrow> nat" where
  "count_in needle [] = (if needle = [] then 1 else 0)"
| "count_in needle (c # cs) = (if prefix needle (c # cs) then 1 else 0) + count_in needle cs"

fun closes :: "nat \<Rightarrow> re \<Rightarrow> bool" where
  "closes n (Group m r) = (n = m \<or> closes n r)"
| "closes n (Opt r) = closes n r"
| "closes n (Seq a b) = (closes n a \<or> closes n b)"
| "closes n (Alt a b) = (closes n a \<or> closes n b)"
| "closes n _ = False"

fun fcloses :: "nat \<Rightarrow> frame \<Rightarrow> bool" where
  "fcloses n (Match r) = closes n r"
| "fcloses n (Close m) = (n = m)"

subsection \<open>Example files\<close>

definition route_file :: "pystr \<Rightarrow> pyfile" where
  "route_file c = \<lparr>body = c, read_error = None, write_error = None\<rparr>"

text \<open>
  A project in which two routes qualify for the insertion, one has a dynamic export with
  another value, one does not use the session call, one has no insertion point, one cannot
  be read, one cannot be opened for writing, and the other eight routes do not exist. A
  file outside the route list qualifies as well. Standard output takes every line.
\<close>

definition example_world :: world where
  "example_world =
     \<lparr>files =
        [''app/api/credits/usage/route.ts'' \<mapsto>
           route_file (str ''import getServerSession\<newline>\<newline>export async function GET''),
         ''app/api/settings/route.ts'' \<mapsto>
           route_file (str ''import getServerSession\<newline>export const dynamic = 1''),
         ''app/api/purchases/route.ts'' \<mapsto>
           route_file (str ''import x\<newline>export const a''),
         ''app/api/projects/route.ts'' \<mapsto>
           route_file (str ''getServerSession()''),
         ''app/api/personas/route.ts'' \<mapsto>
           (route_file (str ''import getServerSession\<newline>export const a''))
             \<lparr>read_error := Some (OtherException ''Permission denied'')\<rparr>,
         ''app/api/stripe/confirm/route.ts'' \<mapsto>
           (route_file (str ''import getServerSession\<newline>export const a''))
             \<lparr>write_error := Some (OpenFails (OtherException ''Read-only file system''))\<rparr>,
         ''app/api/generate-advanced/route.ts'' \<mapsto>
           route_file (str ''import getServerSession\<newline>export const a''),
         ''README.md'' \<mapsto>
           route_file (str ''import getServerSession\<newline>export const a'')],
      stdout = [], opened_w = [], print_error = (\<lambda>l. None)\<rparr>"

text \<open>
  A route whose first export declaration is indented: TypeScript does not care, the pattern
  wants \<^verbatim>\<open>export\<close> right after a newline.
\<close>

definition indented_export :: pystr where
  "indented_export =
     str ''import getServerSession\<newline> export const a\<newline>export const b''"

definition indented_world :: world where
  "indented_world =
     \<lparr>files = [''app/api/settings/route.ts'' \<mapsto> route_file indented_export],
      stdout = [], opened_w = [], print_error = (\<lambda>l. None)\<rparr>"

text \<open>
  A project with one route, which qualifies for the insertion but for its write: the open
  succeeds and the write raises after ten characters (a size limit).
\<close>

definition cut_world :: world where
  "cut_world =
     \<lparr>files =
        [''app/api/settings/route.ts'' \<mapsto>
           (route_file (str ''import getServerSession\<newline>export const a''))
             \<lparr>write_error := Some (WriteFails 10 (OtherException ''File too large''))\<rparr>],
      stdout = [], opened_w = [], print_error = (\<lambda>l. None)\<rparr>"

text \<open>
  A standard output that takes ASCII only: the banner and the summary pass, every status
  line raises for its symbol. The project has no route file at all.
\<close>

fun ascii_stdout :: "line \<Rightarrow> string option" where
  "ascii_stdout Banner = None"
| "ascii_stdout (Done n) = None"
| "ascii_stdout l = Some ''UnicodeEncodeError''"

definition ascii_world :: world where
  "ascii_world =
     \<lparr>files = Map.empty, stdout = [], opened_w = [], print_error = ascii_stdout\<rparr>"

section \<open>Helper lemmas\<close>

lemma py_in_sublist: "py_in n h = sublist n h"
  by (induction h) (auto simp: sublist_Cons_right)

lemma slice_length: "length (slice_to s e) + length (slice_from s e) = length s"
  by (simp add: slice_to_def slice_from_def)

lemma marker_in_DYNAMIC_EXPORT: "py_in (str ''export const dynamic'') DYNAMIC_EXPORT"
  by (simp add: DYNAMIC_EXPORT_def str_def)

lemma marker_in_new_content:
  "py_in (str ''export const dynamic'') (a @ DYNAMIC_EXPORT @ b)"
proof -
  have "sublist (str ''export const dynamic'') DYNAMIC_EXPORT"
    using marker_in_DYNAMIC_EXPORT by (simp add: py_in_sublist)
  then have "sublist (str ''export const dynamic'') (a @ DYNAMIC_EXPORT @ b)"
    by (meson sublist_appendI sublist_order.order_trans)
  then show ?thesis by (simp add: py_in_sublist)
qed

lemma marker_of_DYNAMIC_EXPORT:
  "py_in DYNAMIC_EXPORT c \<Longrightarrow> py_in (str ''export const dynamic'') c"
  using marker_in_DYNAMIC_EXPORT by (auto simp: py_in_sublist)

lemma DYNAMIC_EXPORT_length: "length DYNAMIC_EXPORT = 99"
  by (simp add: DYNAMIC_EXPORT_def str_def)

lemma distinct_API_ROUTES: "distinct API_ROUTES"
  by (simp add: API_ROUTES_def)

lemma length_API_ROUTES: "length API_ROUTES = 15"
  by (simp add: API_ROUTES_def)

lemma new_content_neq: "new_content c m \<noteq> c"
proof
  assume "new_content c m = c"
  then have "length (new_content c m) = length c" by simp
  moreover have "length (new_content c m) = length c + 99"
    using slice_length [of c "m_end_group m 1"]
    by (simp add: new_content_def DYNAMIC_EXPORT_length)
  ultimately show False by simp
qed

lemma print_return_cases:
  "(\<exists>e. print_error w l = Some e \<and> print_return l b w = Inl (OtherException e, w)) \<or>
   (print_error w l = None \<and> print_return l b w = Inr (b, w\<lparr>stdout := stdout w @ [l]\<rparr>))"
  by (cases "print_error w l") (simp_all add: print_return_def py_print_def)

lemma print_return_ok:
  "print_error w l = None \<Longrightarrow> print_return l b w = Inr (b, w\<lparr>stdout := stdout w @ [l]\<rparr>)"
  by (simp add: print_return_def py_print_def)

lemma print_return_world [simp]:
  "files (world_of (print_return l b w)) = files w"
  "opened_w (world_of (print_return l b w)) = opened_w w"
  "print_error (world_of (print_return l b w)) = print_error w"
  using print_return_cases [of w l b] by (auto simp: world_of_def)

lemma print_return_true [simp]: "returned_true (print_return l b w) = (b \<and> print_error w l = None)"
  using print_return_cases [of w l b] by (auto simp: returned_true_def)

lemma handler_world:
  "files (world_of (add_dynamic_export p w)) = files (world_of (add_dynamic_export_try p w))"
  "opened_w (world_of (add_dynamic_export p w)) = opened_w (world_of (add_dynamic_export_try p w))"
  "print_error (world_of (add_dynamic_export p w)) = print_error (world_of (add_dynamic_export_try p w))"
proof -
  show "files (world_of (add_dynamic_export p w)) = files (world_of (add_dynamic_export_try p w))"
  proof (cases "add_dynamic_export_try p w")
    case (Inl ew)
    obtain e w' where "ew = (e, w')" by (cases ew)
    with Inl show ?thesis
      by (cases e) (simp_all add: add_dynamic_export_def, simp_all add: world_of_def)
  next
    case (Inr r)
    then show ?thesis by (simp add: add_dynamic_export_def)
  qed
  show "opened_w (world_of (add_dynamic_export p w)) = opened_w (world_of (add_dynamic_export_try p w))"
  proof (cases "add_dynamic_export_try p w")
    case (Inl ew)
    obtain e w' where "ew = (e, w')" by (cases ew)
    with Inl show ?thesis
      by (cases e) (simp_all add: add_dynamic_export_def, simp_all add: world_of_def)
  next
    case (Inr r)
    then show ?thesis by (simp add: add_dynamic_export_def)
  qed
  show "print_error (world_of (add_dynamic_export p w)) = print_error (world_of (add_dynamic_export_try p w))"
  proof (cases "add_dynamic_export_try p w")
    case (Inl ew)
    obtain e w' where "ew = (e, w')" by (cases ew)
    with Inl show ?thesis
      by (cases e) (simp_all add: add_dynamic_export_def, simp_all add: world_of_def)
  next
    case (Inr r)
    then show ?thesis by (simp add: add_dynamic_export_def)
  qed
qed

lemmas try_defs = add_dynamic_export_try_def py_read_def py_write_def Let_def

lemma world_of_simps [simp]:
  "world_of (Inl (e, w)) = w"
  "world_of (Inr (x, w)) = w"
  by (simp_all add: world_of_def)

lemma try_files:
  "files (world_of (add_dynamic_export_try p w)) =
     (files w)(p := map_option file_after (files w p))"
proof (cases "files w p")
  case None
  then show ?thesis by (simp add: try_defs fun_upd_idem)
next
  case f: (Some f)
  show ?thesis
  proof (cases "read_error f")
    case (Some e)
    with f show ?thesis by (simp add: try_defs file_after_def fun_upd_idem)
  next
    case r: None
    show ?thesis
    proof (cases "py_in (str ''export const dynamic'') (body f) \<or>
        \<not> py_in (str ''getServerSession'') (body f)")
      case True
      with f r show ?thesis by (auto simp: try_defs file_after_def fun_upd_idem)
    next
      case False
      show ?thesis
      proof (cases "re_search import_pattern (body f)")
        case None
        with f r False show ?thesis by (simp add: try_defs file_after_def fun_upd_idem)
      next
        case (Some m)
        with f r False show ?thesis
          by (cases "write_error f")
             (auto simp: try_defs file_after_def new_content_def fun_upd_idem
               split: write_fault.splits)
      qed
    qed
  qed
qed

lemma try_print_error: "print_error (world_of (add_dynamic_export_try p w)) = print_error w"
  by (simp add: try_defs split: option.splits write_fault.splits sum.splits)

lemma try_opened:
  "opened_w (world_of (add_dynamic_export_try p w)) = opened_w w \<or>
   opened_w (world_of (add_dynamic_export_try p w)) = opened_w w @ [p]"
  by (simp add: try_defs split: option.splits write_fault.splits sum.splits)

lemma add_files:
  "files (world_of (add_dynamic_export p w)) = (files w)(p := map_option file_after (files w p))"
  by (simp add: handler_world try_files)

lemma add_print_error: "print_error (world_of (add_dynamic_export p w)) = print_error w"
  by (simp add: handler_world try_print_error)

lemma add_opened:
  "opened_w (world_of (add_dynamic_export p w)) = opened_w w \<or>
   opened_w (world_of (add_dynamic_export p w)) = opened_w w @ [p]"
  using try_opened [of p w] by (simp add: handler_world)

lemma returned_true_simps [simp]:
  "returned_true (Inl ew) = False"
  "returned_true (Inr (b, w)) = b"
  by (simp_all add: returned_true_def)

lemma handled_exit:
  assumes "add_dynamic_export_try p w = print_return l b w'"
  shows "add_dynamic_export p w =
    (case print_error w' l of
       None \<Rightarrow> Inr (b, w'\<lparr>stdout := stdout w' @ [l]\<rparr>)
     | Some e \<Rightarrow> print_return (ErrorLine p e) False w')"
  by (cases "print_error w' l")
     (simp_all add: add_dynamic_export_def assms print_return_def py_print_def)

lemma handled_raise:
  assumes "add_dynamic_export_try p w = Inl (e, w')"
  shows "add_dynamic_export p w =
    print_return (case e of FileNotFoundError \<Rightarrow> NotFound p | OtherException t \<Rightarrow> ErrorLine p t)
      False w'"
  by (cases e) (simp_all add: add_dynamic_export_def assms)

lemma try_marker:
  "py_read p w = Inr c \<Longrightarrow> py_in (str ''export const dynamic'') c \<Longrightarrow>
   add_dynamic_export_try p w = print_return (AlreadyHas p) False w"
  by (simp add: add_dynamic_export_try_def)

lemma try_no_trigger:
  "py_read p w = Inr c \<Longrightarrow> \<not> py_in (str ''export const dynamic'') c \<Longrightarrow>
   \<not> py_in (str ''getServerSession'') c \<Longrightarrow>
   add_dynamic_export_try p w = print_return (NotUsing p) False w"
  by (simp add: add_dynamic_export_try_def)

lemma try_no_match:
  "py_read p w = Inr c \<Longrightarrow> \<not> py_in (str ''export const dynamic'') c \<Longrightarrow>
   py_in (str ''getServerSession'') c \<Longrightarrow> re_search import_pattern c = None \<Longrightarrow>
   add_dynamic_export_try p w = print_return (NoInsertionPoint p) False w"
  by (simp add: add_dynamic_export_try_def)

lemma try_insertable:
  assumes "insertable w p" and "files w p = Some f" and "re_search import_pattern (body f) = Some m"
  shows "add_dynamic_export_try p w =
    print_return (Added p) True
      (w\<lparr>opened_w := opened_w w @ [p],
         files := (files w)(p \<mapsto> f\<lparr>body := new_content (body f) m\<rparr>)\<rparr>)"
  using assms by (simp add: insertable_def try_defs new_content_def)

lemma try_true_insertable:
  "returned_true (add_dynamic_export_try p w) \<Longrightarrow> insertable w p"
proof (cases "files w p")
  case None
  then show "returned_true (add_dynamic_export_try p w) \<Longrightarrow> ?thesis"
    by (simp add: try_defs)
next
  case f: (Some f)
  show "returned_true (add_dynamic_export_try p w) \<Longrightarrow> ?thesis"
  proof (cases "read_error f")
    case (Some e)
    with f show "returned_true (add_dynamic_export_try p w) \<Longrightarrow> ?thesis"
      by (simp add: try_defs)
  next
    case r: None
    show "returned_true (add_dynamic_export_try p w) \<Longrightarrow> ?thesis"
    proof (cases "re_search import_pattern (body f)")
      case None
      with f r show "returned_true (add_dynamic_export_try p w) \<Longrightarrow> ?thesis"
        by (simp add: try_defs split: if_splits)
    next
      case (Some m)
      with f r show "returned_true (add_dynamic_export_try p w) \<Longrightarrow> ?thesis"
        by (cases "write_error f")
           (auto simp: try_defs insertable_def split: if_splits write_fault.splits)
    qed
  qed
qed

lemma add_true_insertable:
  assumes "returned_true (add_dynamic_export p w)"
  shows "insertable w p"
proof (cases "add_dynamic_export_try p w")
  case (Inl ew)
  obtain e w' where "ew = (e, w')" by (cases ew)
  with Inl assms show ?thesis by (simp add: handled_raise)
next
  case (Inr r)
  with assms show ?thesis
    using try_true_insertable [of p w] by (simp add: add_dynamic_export_def)
qed

lemma add_ok:
  assumes ok: "print_error w = (\<lambda>l. None)"
  shows "\<exists>l w'. add_dynamic_export p w = Inr (insertable w p, w') \<and>
     stdout w' = stdout w @ [l] \<and> line_path l = Some p"
proof (cases "files w p")
  case None
  then have "add_dynamic_export_try p w = Inl (FileNotFoundError, w)"
    by (simp add: try_defs)
  from handled_raise [OF this] None ok show ?thesis
    by (simp add: print_return_ok insertable_def)
next
  case f: (Some f)
  show ?thesis
  proof (cases "read_error f")
    case (Some e)
    with f have "add_dynamic_export_try p w = Inl (e, w)"
      by (simp add: try_defs)
    from handled_raise [OF this] f Some ok show ?thesis
      by (cases e) (simp_all add: print_return_ok insertable_def)
  next
    case r: None
    with f have rd: "py_read p w = Inr (body f)" by (simp add: py_read_def)
    show ?thesis
    proof (cases "py_in (str ''export const dynamic'') (body f)")
      case True
      from handled_exit [OF try_marker [OF rd True]] f True ok show ?thesis
        by (simp add: insertable_def)
    next
      case m: False
      show ?thesis
      proof (cases "py_in (str ''getServerSession'') (body f)")
        case False
        from handled_exit [OF try_no_trigger [OF rd m False]] f False ok show ?thesis
          by (simp add: insertable_def)
      next
        case t: True
        show ?thesis
        proof (cases "re_search import_pattern (body f)")
          case None
          from handled_exit [OF try_no_match [OF rd m t None]] f None ok show ?thesis
            by (simp add: insertable_def)
        next
          case s: (Some mt)
          show ?thesis
          proof (cases "write_error f")
            case None
            with f r m t s have i: "insertable w p" by (simp add: insertable_def)
            from handled_exit [OF try_insertable [OF i f s]] i ok show ?thesis
              by simp
          next
            case (Some wf)
            with f have ni: "\<not> insertable w p" by (simp add: insertable_def)
            show ?thesis
            proof (cases wf)
              case (OpenFails e)
              with f r m t s Some have
                "add_dynamic_export_try p w = Inl (e, w\<lparr>opened_w := opened_w w @ [p]\<rparr>)"
                by (simp add: try_defs)
              from handled_raise [OF this] ni ok show ?thesis
                by (cases e) (simp_all add: print_return_ok)
            next
              case (WriteFails n e)
              with f r m t s Some have
                "add_dynamic_export_try p w =
                   Inl (e, w\<lparr>opened_w := opened_w w @ [p],
                          files := (files w)(p \<mapsto> f\<lparr>body := take n (new_content (body f) mt)\<rparr>)\<rparr>)"
                by (simp add: try_defs new_content_def)
              from handled_raise [OF this] ni ok show ?thesis
                by (cases e) (simp_all add: print_return_ok)
            qed
          qed
        qed
      qed
    qed
  qed
qed

lemma file_after_insertable:
  assumes "insertable w p" and "files w p = Some f"
    and "re_search import_pattern (body f) = Some m"
  shows "file_after f = f\<lparr>body := new_content (body f) m\<rparr> \<and>
         f\<lparr>body := new_content (body f) m\<rparr> \<noteq> f"
proof -
  have "f\<lparr>body := new_content (body f) m\<rparr> \<noteq> f"
    using new_content_neq [of "body f" m]
    by (metis pyfile.select_convs(1) pyfile.surjective pyfile.update_convs(1))
  with assms show ?thesis
    by (simp add: insertable_def file_after_def)
qed

lemma file_after_not_insertable:
  "\<not> insertable w p \<Longrightarrow> \<not> write_cuts w p \<Longrightarrow> files w p = Some f \<Longrightarrow> file_after f = f"
  by (auto simp: insertable_def write_cuts_def file_after_def split: option.splits write_fault.splits)

lemma file_after_settled:
  assumes "\<not> write_cuts w p" and "files w p = Some f"
  shows "file_after (file_after f) = file_after f"
proof (cases "insertable w p")
  case True
  then obtain m where m: "re_search import_pattern (body f) = Some m"
    using assms(2) by (auto simp: insertable_def)
  with True assms(2) have "file_after f = f\<lparr>body := new_content (body f) m\<rparr>"
    by (simp add: insertable_def file_after_def)
  then show ?thesis
    by (simp add: file_after_def new_content_def marker_in_new_content)
next
  case False
  with assms show ?thesis by (simp add: file_after_not_insertable)
qed

lemma for_routes_raise:
  "add_dynamic_export p w = Inl ew \<Longrightarrow> for_routes (p # ps) n w = Inl ew"
  by simp

lemma for_routes_return:
  "add_dynamic_export p w = Inr (b, w') \<Longrightarrow>
   for_routes (p # ps) n w = for_routes ps (if b then n + 1 else n) w'"
  by (cases b) simp_all

lemma add_cases:
  obtains (raise) e w' where "add_dynamic_export p w = Inl (e, w')"
      "world_of (add_dynamic_export p w) = w'"
  | (return) b w' where "add_dynamic_export p w = Inr (b, w')"
      "world_of (add_dynamic_export p w) = w'"
proof (cases "add_dynamic_export p w")
  case (Inl ew)
  then show ?thesis using raise by (cases ew) simp
next
  case (Inr r)
  then show ?thesis using return by (cases r) simp
qed

lemma for_routes_frame:
  "q \<notin> set ps \<Longrightarrow> files (world_of (for_routes ps n w)) q = files w q"
proof (induction ps arbitrary: n w)
  case Nil
  then show ?case by simp
next
  case (Cons p ps)
  then have q: "q \<noteq> p" "q \<notin> set ps" by auto
  have a: "files (world_of (add_dynamic_export p w)) q = files w q"
    using q by (simp add: add_files)
  show ?case
  proof (cases p w rule: add_cases)
    case (raise e w')
    with a show ?thesis by (simp add: for_routes_raise)
  next
    case (return b w')
    with a Cons.IH [OF q(2), of "if b then n + 1 else n" w'] show ?thesis
      by (simp only: for_routes_return [OF return(1)])
  qed
qed

lemma for_routes_opened:
  "set (opened_w (world_of (for_routes ps n w))) \<subseteq> set (opened_w w) \<union> set ps"
proof (induction ps arbitrary: n w)
  case Nil
  then show ?case by simp
next
  case (Cons p ps)
  have a: "set (opened_w (world_of (add_dynamic_export p w))) \<subseteq> set (opened_w w) \<union> {p}"
    using add_opened [of p w] by auto
  show ?case
  proof (cases p w rule: add_cases)
    case (raise e w')
    with a show ?thesis by (auto simp: for_routes_raise)
  next
    case (return b w')
    with a Cons.IH [of "if b then n + 1 else n" w'] show ?thesis
      by (simp only: for_routes_return [OF return(1)]) auto
  qed
qed

lemma for_routes_files:
  "distinct ps \<Longrightarrow> for_routes ps n w = Inr (k, w1) \<Longrightarrow>
   files w1 q = (if q \<in> set ps then map_option file_after (files w q) else files w q)"
proof (induction ps arbitrary: n w)
  case Nil
  then show ?case by simp
next
  case (Cons p ps)
  from Cons.prems have d: "distinct ps" and np: "p \<notin> set ps" by simp_all
  show ?case
  proof (cases p w rule: add_cases)
    case (raise e w')
    with Cons.prems show ?thesis by (simp add: for_routes_raise)
  next
    case (return b w')
    with Cons.prems have r: "for_routes ps (if b then n + 1 else n) w' = Inr (k, w1)"
      by (simp only: for_routes_return [OF return(1)])
    have f: "files w' = (files w)(p := map_option file_after (files w p))"
      using add_files [of p w] return(2) by simp
    from Cons.IH [OF d r] f np show ?thesis by auto
  qed
qed

lemma for_routes_ok:
  assumes "print_error w = (\<lambda>l. None)" and "distinct ps"
  shows "\<exists>w1 ls. for_routes ps n w = Inr (n + length (filter (insertable w) ps), w1) \<and>
     stdout w1 = stdout w @ ls \<and> map line_path ls = map Some ps"
  using assms
proof (induction ps arbitrary: n w)
  case Nil
  then show ?case by simp
next
  case (Cons p ps)
  from Cons.prems have d: "distinct ps" and np: "p \<notin> set ps" by simp_all
  obtain l w' where a: "add_dynamic_export p w = Inr (insertable w p, w')"
    and l: "stdout w' = stdout w @ [l]" "line_path l = Some p"
    using add_ok [OF Cons.prems(1)] by blast
  have w': "world_of (add_dynamic_export p w) = w'" by (simp add: a)
  have ok': "print_error w' = (\<lambda>l. None)"
    using add_print_error [of p w] w' Cons.prems(1) by simp
  have f: "files w' = (files w)(p := map_option file_after (files w p))"
    using add_files [of p w] w' by simp
  have same: "filter (insertable w') ps = filter (insertable w) ps"
  proof (rule filter_cong [OF refl])
    fix q assume "q \<in> set ps"
    with np have "q \<noteq> p" by auto
    with f show "insertable w' q = insertable w q" by (simp add: insertable_def)
  qed
  let ?n1 = "if insertable w p then n + 1 else n"
  obtain w1 ls where r: "for_routes ps ?n1 w' = Inr (?n1 + length (filter (insertable w') ps), w1)"
    and s: "stdout w1 = stdout w' @ ls" "map line_path ls = map Some ps"
    using Cons.IH [OF ok' d] by blast
  have "for_routes (p # ps) n w = Inr (n + length (filter (insertable w) (p # ps)), w1)"
    using r same by (simp only: for_routes_return [OF a]) simp
  moreover have "stdout w1 = stdout w @ (l # ls)" using s l by simp
  moreover have "map line_path (l # ls) = map Some (p # ps)" using s l by simp
  ultimately show ?case by blast
qed

lemma py_print_cases:
  "(\<exists>e. print_error w l = Some e \<and> py_print l w = Inl (OtherException e, w)) \<or>
   (print_error w l = None \<and> py_print l w = Inr (w\<lparr>stdout := stdout w @ [l]\<rparr>))"
  by (cases "print_error w l") (simp_all add: py_print_def)

lemma final_world_simps [simp]:
  "final_world (Inl (e, w)) = w"
  "final_world (Inr w) = w"
  by (simp_all add: final_world_def)

lemma final_world_print [simp]:
  "files (final_world (py_print l w)) = files w"
  "opened_w (final_world (py_print l w)) = opened_w w"
  using py_print_cases [of w l] by auto

lemma main_cases:
  obtains (banner) e where "print_error w Banner = Some e" "main w = Inl (OtherException e, w)"
  | (loop_raise) e w' where "print_error w Banner = None"
      "for_routes API_ROUTES 0 (w\<lparr>stdout := stdout w @ [Banner]\<rparr>) = Inl (e, w')"
      "main w = Inl (e, w')"
  | (summary) n w' where "print_error w Banner = None"
      "for_routes API_ROUTES 0 (w\<lparr>stdout := stdout w @ [Banner]\<rparr>) = Inr (n, w')"
      "main w = py_print (Done n) w'"
proof (cases "print_error w Banner")
  case (Some e)
  then show ?thesis using banner by (simp add: main_def py_print_def)
next
  case None
  show ?thesis
  proof (cases "for_routes API_ROUTES 0 (w\<lparr>stdout := stdout w @ [Banner]\<rparr>)")
    case (Inl ew)
    with None show ?thesis using loop_raise by (cases ew) (simp add: main_def py_print_def)
  next
    case (Inr r)
    with None show ?thesis using summary by (cases r) (simp add: main_def py_print_def)
  qed
qed

lemma main_frame:
  assumes "q \<notin> set API_ROUTES"
  shows "files (final_world (main w)) q = files w q"
proof (cases w rule: main_cases)
  case (banner e)
  then show ?thesis by simp
next
  case (loop_raise e w')
  with for_routes_frame [OF assms, of 0 "w\<lparr>stdout := stdout w @ [Banner]\<rparr>"]
  show ?thesis by simp
next
  case (summary n w')
  with for_routes_frame [OF assms, of 0 "w\<lparr>stdout := stdout w @ [Banner]\<rparr>"]
  show ?thesis by simp
qed

lemma main_opened:
  "set (opened_w (final_world (main w))) \<subseteq> set (opened_w w) \<union> set API_ROUTES"
proof (cases w rule: main_cases)
  case (banner e)
  then show ?thesis by simp
next
  case (loop_raise e w')
  with for_routes_opened [of API_ROUTES 0 "w\<lparr>stdout := stdout w @ [Banner]\<rparr>"]
  show ?thesis by simp
next
  case (summary n w')
  with for_routes_opened [of API_ROUTES 0 "w\<lparr>stdout := stdout w @ [Banner]\<rparr>"]
  show ?thesis by simp
qed

lemma main_completed_files:
  assumes "main w = Inr w1"
  shows "files w1 q =
    (if q \<in> set API_ROUTES then map_option file_after (files w q) else files w q)"
proof (cases w rule: main_cases)
  case (banner e)
  with assms show ?thesis by simp
next
  case (loop_raise e w')
  with assms show ?thesis by simp
next
  case (summary n w')
  from for_routes_files [OF distinct_API_ROUTES summary(2), of q]
  have "files w' q =
      (if q \<in> set API_ROUTES then map_option file_after (files w q) else files w q)"
    by simp
  moreover from assms summary(3) have "files w1 = files w'"
    using final_world_print(1) [of "Done n" w'] by simp
  ultimately show ?thesis by simp
qed

lemma for_routes_print_error:
  "print_error (world_of (for_routes ps n v)) = print_error v"
proof (induction ps arbitrary: n v)
  case Nil
  then show ?case by simp
next
  case (Cons p ps)
  show ?case
  proof (cases p v rule: add_cases)
    case (raise e v')
    with add_print_error [of p v] show ?thesis by (simp add: for_routes_raise)
  next
    case (return b v')
    with add_print_error [of p v] Cons.IH [of "if b then n + 1 else n" v'] show ?thesis
      by (simp only: for_routes_return [OF return(1)])
  qed
qed

lemma insertable_same_files: "files w' = files w \<Longrightarrow> insertable w' = insertable w"
  by (rule ext) (simp add: insertable_def)

lemma main_ok:
  assumes "print_error w = (\<lambda>l. None)"
  shows "\<exists>w1 ls. main w = Inr w1 \<and>
     stdout w1 = stdout w @ [Banner] @ ls @ [Done (length (filter (insertable w) API_ROUTES))] \<and>
     map line_path ls = map Some API_ROUTES"
proof -
  let ?w0 = "w\<lparr>stdout := stdout w @ [Banner]\<rparr>"
  have ok0: "print_error ?w0 = (\<lambda>l. None)" using assms by simp
  obtain w' ls where r: "for_routes API_ROUTES 0 ?w0 =
      Inr (0 + length (filter (insertable ?w0) API_ROUTES), w')"
    and s: "stdout w' = stdout ?w0 @ ls" "map line_path ls = map Some API_ROUTES"
    using for_routes_ok [OF ok0 distinct_API_ROUTES] by blast
  have i: "insertable ?w0 = insertable w" by (rule insertable_same_files) simp
  have ok': "print_error w' (Done (length (filter (insertable w) API_ROUTES))) = None"
    using for_routes_print_error [of API_ROUTES 0 ?w0] r assms by simp
  have "main w = Inr (w'\<lparr>stdout := stdout w' @ [Done (length (filter (insertable w) API_ROUTES))]\<rparr>)"
    using assms r i ok' by (simp add: main_def py_print_def)
  with s show ?thesis by simp
qed

lemmas run_defs = main_def API_ROUTES_def add_dynamic_export_def add_dynamic_export_try_def
  print_return_def py_read_def py_write_def py_print_def route_file_def re_search_def
  import_pattern_def export_decl_def str_def m_end_group_def slice_to_def slice_from_def
  DYNAMIC_EXPORT_def Let_def

lemma exit_keeps_files:
  assumes "add_dynamic_export_try p w = print_return l b w"
  shows "files (world_of (add_dynamic_export p w)) = files w"
  using assms by (simp add: handler_world)

lemma exit_false:
  assumes "add_dynamic_export_try p w = print_return l False w"
  shows "\<not> returned_true (add_dynamic_export p w)"
  using handled_exit [OF assms] by (cases "print_error w l") simp_all

lemma exit_stdout:
  assumes "add_dynamic_export_try p w = print_return l False w"
  shows "stdout (world_of (add_dynamic_export p w)) = stdout w @ [l] \<or>
         stdout (world_of (add_dynamic_export p w)) = stdout w \<or>
         (\<exists>e. stdout (world_of (add_dynamic_export p w)) = stdout w @ [ErrorLine p e])"
proof (cases "print_error w l")
  case None
  with handled_exit [OF assms] show ?thesis by simp
next
  case (Some e)
  with handled_exit [OF assms] print_return_cases [of w "ErrorLine p e" False] show ?thesis
    by auto
qed

lemma card_insertable:
  "card {p \<in> set API_ROUTES. insertable w p} = length (filter (insertable w) API_ROUTES)"
proof -
  have "{p \<in> set API_ROUTES. insertable w p} = set (filter (insertable w) API_ROUTES)"
    by auto
  moreover have "distinct (filter (insertable w) API_ROUTES)"
    using distinct_API_ROUTES by simp
  then have "card (set (filter (insertable w) API_ROUTES)) =
      length (filter (insertable w) API_ROUTES)"
    by (rule distinct_card)
  ultimately show ?thesis by (simp only:)
qed

lemma changed_iff_insertable:
  assumes "\<not> write_cuts w p"
  shows "(map_option file_after (files w p) \<noteq> files w p) = insertable w p"
proof (cases "files w p")
  case None
  then show ?thesis by (simp add: insertable_def)
next
  case (Some f)
  show ?thesis
  proof (cases "insertable w p")
    case True
    then obtain m where "re_search import_pattern (body f) = Some m"
      using Some by (auto simp: insertable_def)
    from file_after_insertable [OF True Some this] True Some show ?thesis by simp
  next
    case False
    from file_after_not_insertable [OF False assms Some] False Some show ?thesis by simp
  qed
qed

lemma print_return_raise: "print_return l b v = Inl (e, v') \<Longrightarrow> v' = v"
  using print_return_cases [of v l b] by auto

lemma exit_raise:
  "add_dynamic_export_try p w = print_return l b v \<Longrightarrow>
   add_dynamic_export_try p w = Inl (e, w') \<Longrightarrow> w' = v"
  using print_return_raise [of l b v e w'] by simp

lemma try_raise_stdout:
  assumes t: "add_dynamic_export_try p w = Inl (e, w')"
  shows "stdout w' = stdout w"
proof (cases "files w p")
  case None
  with t show ?thesis by (simp add: try_defs)
next
  case f: (Some f)
  show ?thesis
  proof (cases "read_error f")
    case (Some x)
    with f t show ?thesis by (auto simp: try_defs)
  next
    case r: None
    with f have rd: "py_read p w = Inr (body f)" by (simp add: py_read_def)
    show ?thesis
    proof (cases "py_in (str ''export const dynamic'') (body f)")
      case True
      from exit_raise [OF try_marker [OF rd True] t] show ?thesis by simp
    next
      case m: False
      show ?thesis
      proof (cases "py_in (str ''getServerSession'') (body f)")
        case False
        from exit_raise [OF try_no_trigger [OF rd m False] t] show ?thesis by simp
      next
        case tr: True
        show ?thesis
        proof (cases "re_search import_pattern (body f)")
          case None
          from exit_raise [OF try_no_match [OF rd m tr None] t] show ?thesis by simp
        next
          case s: (Some mt)
          show ?thesis
          proof (cases "write_error f")
            case None
            with f r m tr s have "insertable w p" by (simp add: insertable_def)
            from exit_raise [OF try_insertable [OF this f s] t] show ?thesis by simp
          next
            case (Some wf)
            with f r m tr s t show ?thesis
              by (cases wf) (auto simp: try_defs)
          qed
        qed
      qed
    qed
  qed
qed

lemma add_twice:
  assumes a: "add_dynamic_export p w = Inr (True, w1)"
  shows "files (world_of (add_dynamic_export p w1)) = files w1 \<and>
         \<not> returned_true (add_dynamic_export p w1) \<and>
         (print_error w1 (AlreadyHas p) = None \<longrightarrow>
            add_dynamic_export p w1 = Inr (False, w1\<lparr>stdout := stdout w1 @ [AlreadyHas p]\<rparr>))"
proof -
  from a have "returned_true (add_dynamic_export p w)" by simp
  then have i: "insertable w p" by (rule add_true_insertable)
  then obtain f m where f: "files w p = Some f" and m: "re_search import_pattern (body f) = Some m"
    by (auto simp: insertable_def split: option.splits)
  have "files w1 = (files w)(p := map_option file_after (files w p))"
    using add_files [of p w] a by simp
  with file_after_insertable [OF i f m] f
  have f1: "files w1 p = Some (f\<lparr>body := new_content (body f) m\<rparr>)" by simp
  from i f have "read_error f = None" by (simp add: insertable_def)
  with f1 have r: "py_read p w1 = Inr (new_content (body f) m)"
    by (simp add: py_read_def)
  have mk: "py_in (str ''export const dynamic'') (new_content (body f) m)"
    by (simp add: new_content_def marker_in_new_content)
  from try_marker [OF r mk]
  have t: "add_dynamic_export_try p w1 = print_return (AlreadyHas p) False w1" .
  from exit_keeps_files [OF t] exit_false [OF t] handled_exit [OF t] show ?thesis by simp
qed

lemma for_routes_files_any:
  "distinct ps \<Longrightarrow>
   files (world_of (for_routes ps n w)) q = files w q \<or>
   files (world_of (for_routes ps n w)) q = map_option file_after (files w q)"
proof (induction ps arbitrary: n w)
  case Nil
  then show ?case by simp
next
  case (Cons p ps)
  from Cons.prems have d: "distinct ps" and np: "p \<notin> set ps" by simp_all
  have f: "files (world_of (add_dynamic_export p w)) = (files w)(p := map_option file_after (files w p))"
    by (rule add_files)
  show ?case
  proof (cases p w rule: add_cases)
    case (raise e w')
    with f show ?thesis by (auto simp: for_routes_raise)
  next
    case (return b w')
    let ?n1 = "if b then n + 1 else n"
    from return f have f': "files w' = (files w)(p := map_option file_after (files w p))" by simp
    show ?thesis
    proof (cases "q = p")
      case True
      with np have "files (world_of (for_routes ps ?n1 w')) q = files w' q"
        by (simp add: for_routes_frame)
      with True f' show ?thesis
        by (simp only: for_routes_return [OF return(1)]) simp
    next
      case False
      with f' have "files w' q = files w q" by simp
      with Cons.IH [OF d, of ?n1 w'] show ?thesis
        by (simp only: for_routes_return [OF return(1)])
    qed
  qed
qed

lemma after_not_insertable:
  assumes "files w1 p = map_option file_after (files w p)"
  shows "\<not> insertable w1 p"
proof (cases "files w p")
  case None
  with assms show ?thesis by (simp add: insertable_def)
next
  case (Some f)
  with assms have f1: "files w1 p = Some (file_after f)" by simp
  show ?thesis
  proof (cases "read_error f \<noteq> None \<or> py_in (str ''export const dynamic'') (body f) \<or>
      \<not> py_in (str ''getServerSession'') (body f)")
    case True
    then have "file_after f = f" by (simp add: file_after_def)
    with f1 True show ?thesis by (auto simp: insertable_def)
  next
    case False
    show ?thesis
    proof (cases "re_search import_pattern (body f)")
      case None
      with False have "file_after f = f" by (simp add: file_after_def)
      with f1 None show ?thesis by (simp add: insertable_def)
    next
      case (Some m)
      show ?thesis
      proof (cases "write_error f")
        case None
        with False Some have "file_after f = f\<lparr>body := new_content (body f) m\<rparr>"
          by (simp add: file_after_def)
        with f1 show ?thesis
          by (simp add: insertable_def new_content_def marker_in_new_content)
      next
        case wf: (Some wf)
        with False Some have "write_error (file_after f) = Some wf"
          by (cases wf) (simp_all add: file_after_def)
        with f1 show ?thesis by (simp add: insertable_def)
      qed
    qed
  qed
qed

lemma for_routes_no_true:
  "distinct ps \<Longrightarrow> \<forall>p\<in>set ps. \<not> insertable w p \<Longrightarrow>
   for_routes ps n w = Inr (k, w1) \<Longrightarrow> k = n"
proof (induction ps arbitrary: n w)
  case Nil
  then show ?case by simp
next
  case (Cons p ps)
  from Cons.prems have d: "distinct ps" and np: "p \<notin> set ps" by simp_all
  show ?case
  proof (cases p w rule: add_cases)
    case (raise e w')
    with Cons.prems show ?thesis by (simp add: for_routes_raise)
  next
    case (return b w')
    have "\<not> b"
    proof
      assume b
      with return(1) have "returned_true (add_dynamic_export p w)" by simp
      from add_true_insertable [OF this] Cons.prems(2) show False by simp
    qed
    have f': "files w' = (files w)(p := map_option file_after (files w p))"
      using add_files [of p w] return by simp
    have "\<forall>q\<in>set ps. \<not> insertable w' q"
    proof
      fix q assume q: "q \<in> set ps"
      with np have "q \<noteq> p" by auto
      with f' have "insertable w' q = insertable w q" by (simp add: insertable_def)
      with q Cons.prems(2) show "\<not> insertable w' q" by simp
    qed
    from Cons.IH [OF d this, of n] Cons.prems(3) \<open>\<not> b\<close> show ?thesis
      by (simp only: for_routes_return [OF return(1)]) simp
  qed
qed

lemma main_twice:
  assumes m: "main v = Inr v1"
  shows "(\<forall>p. p \<notin> set API_ROUTES \<or> \<not> write_cuts v p \<longrightarrow>
            files (final_world (main v1)) p = files v1 p) \<and>
         (\<forall>v2. main v1 = Inr v2 \<longrightarrow> last (stdout v2) = Done 0)"
proof -
  let ?v0 = "v1\<lparr>stdout := stdout v1 @ [Banner]\<rparr>"
  have after: "files v1 p = map_option file_after (files v p)" if "p \<in> set API_ROUTES" for p
    using main_completed_files [OF m, of p] that by simp
  have any: "files (final_world (main v1)) p = files v1 p \<or>
      files (final_world (main v1)) p = map_option file_after (files v1 p)" for p
  proof (cases v1 rule: main_cases)
    case (banner e)
    then show ?thesis by simp
  next
    case (loop_raise e w')
    with for_routes_files_any [OF distinct_API_ROUTES, of 0 ?v0 p] show ?thesis by simp
  next
    case (summary n w')
    with for_routes_files_any [OF distinct_API_ROUTES, of 0 ?v0 p] show ?thesis by simp
  qed
  have keep: "files (final_world (main v1)) p = files v1 p"
    if "p \<notin> set API_ROUTES \<or> \<not> write_cuts v p" for p
  proof (cases "p \<in> set API_ROUTES")
    case False
    then show ?thesis by (rule main_frame)
  next
    case True
    with that have c: "\<not> write_cuts v p" by simp
    have "map_option file_after (files v1 p) = files v1 p"
    proof (cases "files v p")
      case None
      with after [OF True] show ?thesis by simp
    next
      case (Some f)
      from file_after_settled [OF c Some] after [OF True] Some show ?thesis by simp
    qed
    with any [of p] show ?thesis by auto
  qed
  have none: "\<forall>p\<in>set API_ROUTES. \<not> insertable ?v0 p"
  proof
    fix p assume "p \<in> set API_ROUTES"
    from after_not_insertable [OF after [OF this]]
    show "\<not> insertable ?v0 p" by (simp add: insertable_def)
  qed
  have zero: "last (stdout v2) = Done 0" if v2: "main v1 = Inr v2" for v2
  proof (cases v1 rule: main_cases)
    case (banner e)
    with v2 show ?thesis by simp
  next
    case (loop_raise e w')
    with v2 show ?thesis by simp
  next
    case (summary n w')
    from for_routes_no_true [OF distinct_API_ROUTES none summary(2)] have "n = 0" .
    with summary(3) v2 py_print_cases [of w' "Done 0"] show ?thesis by auto
  qed
  from keep zero show ?thesis by blast
qed

lemma example_ok: "print_error example_world = (\<lambda>l. None)"
  by (simp add: example_world_def)

lemma example_insertable_routes:
  "filter (insertable example_world) API_ROUTES =
     [''app/api/credits/usage/route.ts'', ''app/api/generate-advanced/route.ts'']"
  by (simp add: API_ROUTES_def insertable_def example_world_def route_file_def
      re_search_def import_pattern_def export_decl_def str_def)

lemma example_no_cuts: "filter (write_cuts example_world) API_ROUTES = []"
  by (simp add: API_ROUTES_def write_cuts_def example_world_def route_file_def
      re_search_def import_pattern_def export_decl_def str_def)

lemma example_main_stdout:
  "map_sum fst stdout (main example_world) =
     Inr [Banner,
      Added ''app/api/credits/usage/route.ts'',
      NotFound ''app/api/credits/transactions/route.ts'',
      AlreadyHas ''app/api/settings/route.ts'',
      NotUsing ''app/api/purchases/route.ts'',
      NoInsertionPoint ''app/api/projects/route.ts'',
      NotFound ''app/api/projects/[id]/route.ts'',
      ErrorLine ''app/api/personas/route.ts'' ''Permission denied'',
      NotFound ''app/api/personas/[id]/route.ts'',
      NotFound ''app/api/personas/test-style/route.ts'',
      NotFound ''app/api/personas/enrich-style/route.ts'',
      NotFound ''app/api/contents/[id]/route.ts'',
      NotFound ''app/api/stripe/create-session/route.ts'',
      ErrorLine ''app/api/stripe/confirm/route.ts'' ''Read-only file system'',
      NotFound ''app/api/stripe/manual-complete/route.ts'',
      Added ''app/api/generate-advanced/route.ts'',
      Done 2]"
  by (simp add: run_defs example_world_def)

lemma main_print_error: "print_error (final_world (main w)) = print_error w"
proof (cases w rule: main_cases)
  case (banner e)
  then show ?thesis by simp
next
  case (loop_raise e w')
  with for_routes_print_error [of API_ROUTES 0 "w\<lparr>stdout := stdout w @ [Banner]\<rparr>"]
  show ?thesis by simp
next
  case (summary n w')
  with for_routes_print_error [of API_ROUTES 0 "w\<lparr>stdout := stdout w @ [Banner]\<rparr>"]
    py_print_cases [of w' "Done n"]
  show ?thesis by auto
qed

section \<open>Where the text is inserted\<close>

text \<open>
  What a successful match of the pattern says about the end of group 1, and what the
  rewritten file looks like: the inserted text goes in right after a newline, at least eight
  characters after the start of the matched \<^verbatim>\<open>import\<close>, nothing else changes, and
  \<^verbatim>\<open>export const dynamic\<close> occurs exactly once in the result.
\<close>

lemma count_in_zero: "n \<noteq> [] \<Longrightarrow> (count_in n h = 0) = (\<not> py_in n h)"
  by (induction h) auto

lemma prefix_no_nl:
  assumes "10 \<notin> set n"
  shows "prefix n (u @ 10 # y) = prefix n u"
proof
  assume "prefix n (u @ 10 # y)"
  then consider "prefix n u" | n' where "n = u @ n'" "prefix n' (10 # y)"
    by (auto simp: prefix_append)
  then show "prefix n u"
  proof cases
    case 1
    then show ?thesis .
  next
    case 2
    with assms have "n' = []" by (cases n') auto
    with 2 show ?thesis by simp
  qed
next
  assume "prefix n u"
  then show "prefix n (u @ 10 # y)" by (simp add: prefix_prefix)
qed

lemma count_in_split:
  assumes "10 \<notin> set n" and "n \<noteq> []"
  shows "count_in n (x @ 10 # y) = count_in n x + count_in n y"
proof (induction x)
  case Nil
  from assms have "\<not> prefix n (10 # y)" by (cases n) auto
  with assms show ?case by simp
next
  case (Cons c x)
  have "prefix n ((c # x) @ 10 # y) = prefix n (c # x)"
    using assms(1) by (rule prefix_no_nl)
  with Cons show ?case by simp
qed

lemma bt_word:
  "bt (Match (word u) # k) s i g =
     (if prefix u s then bt k (drop (length u) s) (i + length u) g else None)"
proof (induction u arbitrary: s i)
  case Nil
  then show ?case by simp
next
  case (Cons c u)
  then show ?case by (cases s) auto
qed

lemma bt_atom:
  "bt (Match (Atom c) # k) s i g = Some r \<Longrightarrow>
   \<exists>x xs. s = x # xs \<and> accepts c x \<and> bt k xs (Suc i) g = Some r"
  by (cases s) (auto split: if_splits)

lemma bt_star:
  "bt (Match (Star c) # k) s i g = Some r \<Longrightarrow>
   \<exists>n\<le>length s. (\<forall>x\<in>set (take n s). accepts c x) \<and> bt k (drop n s) (i + n) g = Some r"
proof (induction s arbitrary: i)
  case Nil
  then show ?case by simp
next
  case (Cons x xs)
  show ?case
  proof (cases "accepts c x \<and> bt (Match (Star c) # k) xs (Suc i) g = Some r")
    case True
    then obtain n where "n \<le> length xs" "\<forall>x\<in>set (take n xs). accepts c x"
      "bt k (drop n xs) (Suc i + n) g = Some r"
      using Cons.IH by blast
    with True have "Suc n \<le> length (x # xs) \<and> (\<forall>y\<in>set (take (Suc n) (x # xs)). accepts c y) \<and>
        bt k (drop (Suc n) (x # xs)) (i + Suc n) g = Some r"
      by simp
    then show ?thesis by blast
  next
    case False
    with Cons.prems have "bt k (x # xs) i g = Some r"
      by (auto split: if_splits option.splits)
    then have "0 \<le> length (x # xs) \<and> (\<forall>y\<in>set (take 0 (x # xs)). accepts c y) \<and>
        bt k (drop 0 (x # xs)) (i + 0) g = Some r"
      by simp
    then show ?thesis by blast
  qed
qed

lemma bt_plus:
  assumes "bt (Match (Plus c) # k) s i g = Some r"
  shows "\<exists>n\<le>length s. 0 < n \<and> (\<forall>x\<in>set (take n s). accepts c x) \<and>
           bt k (drop n s) (i + n) g = Some r"
proof (cases s)
  case Nil
  with assms show ?thesis by simp
next
  case (Cons x xs)
  with assms have a: "accepts c x" and "bt (Match (Star c) # k) xs (Suc i) g = Some r"
    by (auto split: if_splits)
  then obtain n where "n \<le> length xs" "\<forall>x\<in>set (take n xs). accepts c x"
    "bt k (drop n xs) (Suc i + n) g = Some r"
    using bt_star by blast
  with a Cons have "Suc n \<le> length s \<and> 0 < Suc n \<and> (\<forall>y\<in>set (take (Suc n) s). accepts c y) \<and>
      bt k (drop (Suc n) s) (i + Suc n) g = Some r"
    by simp
  then show ?thesis by blast
qed

lemma bt_lazy:
  "bt (Match (LazyStar c) # k) s i g = Some r \<Longrightarrow>
   \<exists>n\<le>length s. (\<forall>x\<in>set (take n s). accepts c x) \<and> bt k (drop n s) (i + n) g = Some r"
proof (induction s arbitrary: i)
  case Nil
  then show ?case by simp
next
  case (Cons x xs)
  show ?case
  proof (cases "bt k (x # xs) i g")
    case (Some r')
    with Cons.prems have "bt k (x # xs) i g = Some r" by simp
    then have "0 \<le> length (x # xs) \<and> (\<forall>y\<in>set (take 0 (x # xs)). accepts c y) \<and>
        bt k (drop 0 (x # xs)) (i + 0) g = Some r"
      by simp
    then show ?thesis by blast
  next
    case None
    with Cons.prems have a: "accepts c x" and "bt (Match (LazyStar c) # k) xs (Suc i) g = Some r"
      by (auto split: if_splits)
    then obtain n where "n \<le> length xs" "\<forall>x\<in>set (take n xs). accepts c x"
      "bt k (drop n xs) (Suc i + n) g = Some r"
      using Cons.IH by blast
    with a have "Suc n \<le> length (x # xs) \<and> (\<forall>y\<in>set (take (Suc n) (x # xs)). accepts c y) \<and>
        bt k (drop (Suc n) (x # xs)) (i + Suc n) g = Some r"
      by simp
    then show ?thesis by blast
  qed
qed

lemma bt_keeps_group:
  "bt k s i g = Some (j, g') \<Longrightarrow> \<forall>f\<in>set k. \<not> fcloses n f \<Longrightarrow> g' n = g n"
proof (induction k s i g rule: bt.induct)
  case (9 c k x xs i g)
  then show ?case by (auto split: if_splits option.splits)
next
  case (11 c k x xs i g)
  then show ?case by (auto split: if_splits option.splits)
next
  case (12 r k s i g)
  then show ?case by (auto split: if_splits option.splits)
next
  case (14 a b k s i g)
  then show ?case by (auto split: if_splits option.splits)
qed (auto split: if_splits)

lemma bt_bounds:
  "bt k s i g = Some (j, g') \<Longrightarrow> i \<le> j \<and> j \<le> i + length s"
proof (induction k s i g rule: bt.induct)
  case (9 c k x xs i g)
  then show ?case by (fastforce split: if_splits option.splits)
next
  case (11 c k x xs i g)
  then show ?case by (fastforce split: if_splits option.splits)
next
  case (12 r k s i g)
  then show ?case by (auto split: if_splits option.splits)
next
  case (14 a b k s i g)
  then show ?case by (auto split: if_splits option.splits)
qed (fastforce split: if_splits)+

lemma scan_found:
  "scan r s i = Some m \<Longrightarrow>
   \<exists>n\<le>length s. m_start m = i + n \<and>
     bt [Match r] (drop n s) (i + n) Map.empty = Some (m_end m, m_groups m)"
proof (induction s arbitrary: i)
  case Nil
  then show ?case by (auto split: option.splits)
next
  case (Cons x xs)
  show ?case
  proof (cases "bt [Match r] (x # xs) i Map.empty")
    case None
    with Cons.prems have "scan r xs (Suc i) = Some m" by simp
    then obtain n where "n \<le> length xs" "m_start m = Suc i + n"
      "bt [Match r] (drop n xs) (Suc i + n) Map.empty = Some (m_end m, m_groups m)"
      using Cons.IH by blast
    then have "Suc n \<le> length (x # xs) \<and> m_start m = i + Suc n \<and>
        bt [Match r] (drop (Suc n) (x # xs)) (i + Suc n) Map.empty = Some (m_end m, m_groups m)"
      by simp
    then show ?thesis by blast
  next
    case (Some a)
    with Cons.prems have "m_start m = i + 0 \<and>
        bt [Match r] (drop 0 (x # xs)) (i + 0) Map.empty = Some (m_end m, m_groups m)"
      by (cases a) auto
    then show ?thesis by blast
  qed
qed

lemma export_decl_keeps_group_1:
  "\<not> closes 1 (Seq (Group 2 (Star (Lit 10))) (Group 3 export_decl))"
  by (simp add: export_decl_def str_def)

lemma import_pattern_group_1:
  assumes "bt [Match import_pattern] s i Map.empty = Some (j, g')"
  shows "\<exists>n. 7 \<le> n \<and> n < length s \<and> s ! n = 10 \<and> g' 1 = Some (i + Suc n)"
proof -
  let ?K = "[Match (Seq (Group 2 (Star (Lit 10))) (Group 3 export_decl))]"
  define s1 where "s1 = drop 6 s"
  have len: "length (str ''import'') = 6" by (simp add: str_def)
  from assms have
    "bt (Match (word (str ''import'')) #
         Match (Seq (Plus Space) (Seq (LazyStar Dot) (Atom (Lit 10)))) # Close 1 # ?K)
       s i Map.empty = Some (j, g')"
    by (simp add: import_pattern_def)
  then have "bt (Match (Seq (Plus Space) (Seq (LazyStar Dot) (Atom (Lit 10)))) # Close 1 # ?K)
       s1 (i + 6) Map.empty = Some (j, g')"
    by (simp add: bt_word len s1_def split: if_splits)
  then have "bt (Match (Plus Space) # Match (Seq (LazyStar Dot) (Atom (Lit 10))) # Close 1 # ?K)
       s1 (i + 6) Map.empty = Some (j, g')"
    by simp
  from bt_plus [OF this] obtain a where a: "a \<le> length s1" "0 < a"
    and "bt (Match (Seq (LazyStar Dot) (Atom (Lit 10))) # Close 1 # ?K)
       (drop a s1) (i + 6 + a) Map.empty = Some (j, g')"
    by blast
  define s2 where "s2 = drop a s1"
  from \<open>bt (Match (Seq (LazyStar Dot) (Atom (Lit 10))) # Close 1 # ?K)
       (drop a s1) (i + 6 + a) Map.empty = Some (j, g')\<close>
  have "bt (Match (LazyStar Dot) # Match (Atom (Lit 10)) # Close 1 # ?K)
       s2 (i + 6 + a) Map.empty = Some (j, g')"
    by (simp add: s2_def)
  from bt_lazy [OF this] obtain b where b: "b \<le> length s2"
    and "bt (Match (Atom (Lit 10)) # Close 1 # ?K)
       (drop b s2) (i + 6 + a + b) Map.empty = Some (j, g')"
    by blast
  from bt_atom [OF this(2)] obtain x xs where xs: "drop b s2 = x # xs" "accepts (Lit 10) x"
    and "bt (Close 1 # ?K) xs (Suc (i + 6 + a + b)) Map.empty = Some (j, g')"
    by blast
  then have k: "bt ?K xs (Suc (i + 6 + a + b)) (Map.empty(1 \<mapsto> Suc (i + 6 + a + b))) = Some (j, g')"
    by simp
  let ?n = "6 + a + b"
  have "drop ?n s = drop b s2"
    by (simp add: s2_def s1_def add.commute add.left_commute)
  with xs have d: "drop ?n s = 10 # xs" by simp
  then have l: "?n < length s"
    by (metis drop_all list.distinct(1) not_le)
  with d have "s ! ?n = 10"
    by (metis Cons_nth_drop_Suc list.inject)
  moreover have "g' 1 = Some (i + Suc ?n)"
    using bt_keeps_group [OF k, of 1] export_decl_keeps_group_1 by simp
  moreover from a have "7 \<le> ?n" by simp
  ultimately show ?thesis using l by blast
qed

lemma re_search_group_1:
  assumes "re_search import_pattern c = Some m"
  shows "\<exists>e. m_end_group m 1 = int e \<and> m_start m + 8 \<le> e \<and> e \<le> length c \<and> c ! (e - 1) = 10"
proof -
  from assms obtain n where n: "n \<le> length c" "m_start m = n"
    and "bt [Match import_pattern] (drop n c) n Map.empty = Some (m_end m, m_groups m)"
    using scan_found [of import_pattern c 0 m] by (auto simp: re_search_def)
  then obtain k where k: "7 \<le> k" "k < length (drop n c)" "drop n c ! k = 10"
    "m_groups m 1 = Some (n + Suc k)"
    using import_pattern_group_1 by blast
  let ?e = "n + Suc k"
  from k n have "m_end_group m 1 = int ?e" "m_start m + 8 \<le> ?e" "?e \<le> length c"
    by (simp_all add: m_end_group_def)
  moreover from k n have "c ! (?e - 1) = 10" by simp
  ultimately show ?thesis by blast
qed

lemma marker_no_newline:
  "10 \<notin> set (str ''export const dynamic'') \<and> str ''export const dynamic'' \<noteq> []"
  by (simp add: str_def)

lemma marker_once_in_DYNAMIC_EXPORT:
  assumes "\<not> py_in (str ''export const dynamic'') (a @ b)"
  shows "count_in (str ''export const dynamic'') (a @ DYNAMIC_EXPORT @ b) = 1"
proof -
  let ?M = "str ''export const dynamic''"
  let ?L1 = "str ''// Force dynamic rendering (required for NextAuth session)''"
  let ?L2 = "str ''export const dynamic = '' @ [39] @ str ''force-dynamic'' @ [39]"
  note split = count_in_split [of ?M, OF conjunct1 [OF marker_no_newline] conjunct2 [OF marker_no_newline]]
  from assms have "\<not> sublist ?M (a @ b)" by (simp add: py_in_sublist)
  then have "\<not> sublist ?M a" "\<not> sublist ?M b"
    by (auto simp: sublist_append)
  then have ab: "count_in ?M a = 0" "count_in ?M b = 0"
    using marker_no_newline by (simp_all add: count_in_zero py_in_sublist)
  have l1: "count_in ?M ?L1 = 0" by (simp add: str_def)
  have l2: "count_in ?M ?L2 = 1" by (simp add: str_def)
  have "a @ DYNAMIC_EXPORT @ b = a @ 10 # (?L1 @ 10 # (?L2 @ 10 # b))"
    by (simp add: DYNAMIC_EXPORT_def)
  then have "count_in ?M (a @ DYNAMIC_EXPORT @ b) =
      count_in ?M a + (count_in ?M ?L1 + (count_in ?M ?L2 + count_in ?M b))"
    by (simp only: split)
  with ab l1 l2 show ?thesis by simp
qed

lemma insertion_is_a_splice:
  assumes "insertable w p" and "files w p = Some f"
  shows "\<exists>e. 8 \<le> e \<and> e \<le> length (body f) \<and> body f ! (e - 1) = 10 \<and>
      files (world_of (add_dynamic_export p w)) p =
        Some (f\<lparr>body := take e (body f) @ DYNAMIC_EXPORT @ drop e (body f)\<rparr>) \<and>
      count_in (str ''export const dynamic'')
        (take e (body f) @ DYNAMIC_EXPORT @ drop e (body f)) = 1"
proof -
  from assms obtain m where m: "re_search import_pattern (body f) = Some m"
    by (auto simp: insertable_def)
  from re_search_group_1 [OF m] obtain e where e: "m_end_group m 1 = int e"
    "m_start m + 8 \<le> e" "e \<le> length (body f)" "body f ! (e - 1) = 10"
    by blast
  then have n: "new_content (body f) m = take e (body f) @ DYNAMIC_EXPORT @ drop e (body f)"
    by (simp add: new_content_def slice_to_def slice_from_def)
  from assms have "\<not> py_in (str ''export const dynamic'') (take e (body f) @ drop e (body f))"
    by (simp add: insertable_def)
  then have "count_in (str ''export const dynamic'')
      (take e (body f) @ DYNAMIC_EXPORT @ drop e (body f)) = 1"
    by (rule marker_once_in_DYNAMIC_EXPORT)
  moreover have "files (world_of (add_dynamic_export p w)) p =
      Some (f\<lparr>body := take e (body f) @ DYNAMIC_EXPORT @ drop e (body f)\<rparr>)"
    using file_after_insertable [OF assms m] assms(2) n by (simp add: add_files)
  moreover from e have "8 \<le> e" by simp
  ultimately show ?thesis using e(3,4) by blast
qed

section \<open>The claims\<close>

text \<open>
  Claim C1 wants a file that contains the trigger, lacks the marker and matches the pattern
  rewritten with the marker after the import block and before the first export
  declaration. The code misses that on the route below, which is such a file: its first
  export declaration is indented and starts at index 25, the pattern wants \<^verbatim>\<open>export\<close>
  right after a newline and skips it, and the inserted text goes in at index 40, after
  that declaration and before the second one.
\<close>

theorem marker_lands_after_first_export_declaration:
  "py_in (str ''getServerSession'') indented_export \<and>
   \<not> py_in (str ''export const dynamic'') indented_export \<and>
   map_option (\<lambda>m. m_end_group m 1) (re_search import_pattern indented_export) = Some 40 \<and>
   map_option m_start (re_search export_decl indented_export) = Some 25 \<and>
   add_dynamic_export ''app/api/settings/route.ts'' indented_world =
     Inr (True,
      indented_world
        \<lparr>files := [''app/api/settings/route.ts'' \<mapsto>
            route_file (str ''import getServerSession\<newline> export const a\<newline>'' @ DYNAMIC_EXPORT @
                        str ''export const b'')],
         stdout := [Added ''app/api/settings/route.ts''],
         opened_w := [''app/api/settings/route.ts'']\<rparr>)"
  by (simp add: run_defs indented_export_def indented_world_def)















text \<open>
  Claim C8: a path outside the list of fifteen routes keeps its file, and every path
  opened for writing during the run is one of the list, whether the run completes or ends
  with an exception.
\<close>

theorem only_listed_routes_are_written:
  assumes "p \<notin> set API_ROUTES"
  shows "files (final_world (main w)) p = files w p \<and>
         set (opened_w (final_world (main w))) \<subseteq> set (opened_w w) \<union> set API_ROUTES \<and>
         length API_ROUTES = 15"
  using main_frame [OF assms, of w] main_opened [of w] by (simp add: length_API_ROUTES)

theorem only_listed_routes_are_written_witness:
  "''README.md'' \<notin> set API_ROUTES \<and>
   insertable example_world ''README.md'' \<and>
   files (final_world (main example_world)) ''README.md'' = files example_world ''README.md'' \<and>
   set (opened_w (final_world (main example_world))) \<subseteq>
     set (opened_w example_world) \<union> set API_ROUTES \<and>
   opened_w (final_world (main example_world)) =
     [''app/api/credits/usage/route.ts'', ''app/api/stripe/confirm/route.ts'',
      ''app/api/generate-advanced/route.ts'']"
proof -
  have n: "''README.md'' \<notin> set API_ROUTES" by (simp add: API_ROUTES_def)
  have i: "insertable example_world ''README.md''"
    by (simp add: insertable_def example_world_def route_file_def re_search_def
        import_pattern_def export_decl_def str_def)
  have o: "opened_w (final_world (main example_world)) =
     [''app/api/credits/usage/route.ts'', ''app/api/stripe/confirm/route.ts'',
      ''app/api/generate-advanced/route.ts'']"
    by (simp add: run_defs example_world_def)
  from only_listed_routes_are_written [OF n, of example_world] n i o show ?thesis by blast
qed





end
